theory Spec2Isabelle
  imports Complex_Main "HOL-Library.Multiset"
begin

section \<open>Python values shared by both modules\<close>

text \<open>
  The exceptions that the modelled code can raise. Every \<open>raise\<close> of the interpreter or of
  numpy is a branch of the model that returns \<open>Inl\<close> of one of these.
\<close>

datatype py_error = IndexError | ValueError

subsection \<open>\<open>str.strip\<close>, \<open>str.split\<close> and \<open>int\<close>\<close>

text \<open>
  Strings are byte lists. The whitespace of \<open>str.strip()\<close> and \<open>str.split()\<close> (called without
  arguments) is, within ASCII, the characters 9 to 13, 28 to 31 and the blank.
\<close>

definition is_space :: "char \<Rightarrow> bool" where
  "is_space c = (c \<in> set [CHR 0x09, CHR 0x0A, CHR 0x0B, CHR 0x0C, CHR 0x0D,
                            CHR 0x1C, CHR 0x1D, CHR 0x1E, CHR 0x1F, CHR 0x20])"

definition strip :: "string \<Rightarrow> string" where
  "strip s = rev (dropWhile is_space (rev (dropWhile is_space s)))"

text \<open>
  \<open>split_aux cur s\<close> scans \<open>s\<close>; \<open>cur\<close> holds the characters of the field being read, last
  one first. Runs of whitespace separate fields and produce no empty field.
\<close>

fun split_aux :: "string \<Rightarrow> string \<Rightarrow> string list" where
  "split_aux cur [] = (if cur = [] then [] else [rev cur])"
| "split_aux cur (c # cs) =
     (if is_space c
      then (if cur = [] then split_aux [] cs else rev cur # split_aux [] cs)
      else split_aux (c # cur) cs)"

definition split :: "string \<Rightarrow> string list" where
  "split s = split_aux [] s"

definition is_digit :: "char \<Rightarrow> bool" where
  "is_digit c = (c \<in> set ''0123456789'')"

definition digit_val :: "char \<Rightarrow> nat" where
  "digit_val c = of_char c - 48"

text \<open>
  The digits of an integer literal as \<open>int()\<close> accepts them: one or more decimal digits, with
  single underscores allowed between two digits. The flag says whether the previous character
  was a digit.
\<close>

fun py_digits :: "string \<Rightarrow> bool \<Rightarrow> nat \<Rightarrow> nat option" where
  "py_digits [] prev acc = (if prev then Some acc else None)"
| "py_digits (c # cs) prev acc =
     (if is_digit c then py_digits cs True (10 * acc + digit_val c)
      else if c = CHR ''_'' \<and> prev \<and> cs \<noteq> [] then py_digits cs False acc
      else None)"

text \<open>\<open>int(s)\<close> on a field without surrounding whitespace; \<open>None\<close> is the \<open>ValueError\<close>.\<close>

definition py_int :: "string \<Rightarrow> int option" where
  "py_int s =
     (case s of
        [] \<Rightarrow> None
      | c # cs \<Rightarrow>
          if c = CHR ''-'' then map_option (\<lambda>n. - int n) (py_digits cs False 0)
          else if c = CHR ''+'' then map_option int (py_digits cs False 0)
          else map_option int (py_digits s False 0))"

section \<open>The leg merge of \<open>pointcloud_complete_pipeline\<close>\<close>

text \<open>
  A leg file is the list of its lines. The directory of the latest scan is the list of its
  entries, name and content, in the order in which \<open>os.listdir\<close> returns them; the source
  does not sort that list.
\<close>

type_synonym leg_file = "string \<times> string list"

type_synonym components = "int \<rightharpoonup> string list"

definition endswith :: "string \<Rightarrow> string \<Rightarrow> bool" where
  "endswith s suffix = (length suffix \<le> length s \<and> drop (length s - length suffix) s = suffix)"

definition xyz_files :: "leg_file list \<Rightarrow> leg_file list" where
  "xyz_files listing = filter (\<lambda>(fname, content). endswith fname ''.xyz'') listing"

text \<open>\<open>component_files[component_id].append(line)\<close> on a \<open>defaultdict(list)\<close>.\<close>

definition append_component :: "components \<Rightarrow> int \<Rightarrow> string \<Rightarrow> components" where
  "append_component m k line = m(k \<mapsto> (case m k of None \<Rightarrow> [] | Some ls \<Rightarrow> ls) @ [line])"

text \<open>
  The body of the loop over the lines of one leg file. The state is \<open>all_lines\<close> and
  \<open>component_files\<close>. \<open>parts[8]\<close> raises \<open>IndexError\<close> on a row of fewer than nine fields and
  \<open>int\<close> raises \<open>ValueError\<close> on a ninth field that is no integer; the source catches neither.
\<close>

fun read_leg :: "string list \<Rightarrow> string list \<times> components \<Rightarrow> py_error + string list \<times> components" where
  "read_leg [] st = Inr st"
| "read_leg (l # ls) (all_lines, component_files) =
     (let line = strip l in
      if line = [] then read_leg ls (all_lines, component_files)
      else
        let all_lines' = all_lines @ [line];
            parts = split line
        in if length parts \<le> 8 then Inl IndexError
           else (case py_int (parts ! 8) of
                   None \<Rightarrow> Inl ValueError
                 | Some component_id \<Rightarrow>
                     read_leg ls (all_lines', append_component component_files component_id line)))"

fun read_legs :: "leg_file list \<Rightarrow> string list \<times> components \<Rightarrow> py_error + string list \<times> components" where
  "read_legs [] st = Inr st"
| "read_legs ((fname, content) # fs) st =
     (case read_leg content st of
        Inl e \<Rightarrow> Inl e
      | Inr st' \<Rightarrow> read_legs fs st')"

definition merge_legs :: "leg_file list \<Rightarrow> py_error + string list \<times> components" where
  "merge_legs listing = read_legs (xyz_files listing) ([], Map.empty)"

text \<open>\<open>'\n'.join(all_lines) + '\n'\<close>\<close>

fun join_lines :: "string list \<Rightarrow> string" where
  "join_lines [] = []"
| "join_lines [l] = l"
| "join_lines (l # ls) = l @ [CHR 0x0A] @ join_lines ls"

definition merged_text :: "string list \<Rightarrow> string" where
  "merged_text all_lines = join_lines all_lines @ [CHR 0x0A]"

text \<open>
  The merge with its effect on the file system, a map from paths to contents. The merged
  file is written after the loops: an exception of the loops leaves the file system as it
  was, and no grouping is returned.
\<close>

type_synonym filesystem = "string \<rightharpoonup> string"

definition merged_output_file :: "string \<Rightarrow> string" where
  "merged_output_file bridge_id =
     ''merged/TLS_'' @ bridge_id @ ''/'' @ bridge_id @ ''_complete.xyz''"

definition merge_and_write ::
  "filesystem \<Rightarrow> string \<Rightarrow> leg_file list \<Rightarrow> (py_error + components) \<times> filesystem" where
  "merge_and_write fs bridge_id listing =
     (case merge_legs listing of
        Inl e \<Rightarrow> (Inl e, fs)
      | Inr (all_lines, component_files) \<Rightarrow>
          (Inr component_files, fs(merged_output_file bridge_id \<mapsto> merged_text all_lines)))"

text \<open>The rows that a leg file contributes: its lines stripped, blank ones dropped.\<close>

definition leg_rows :: "string list \<Rightarrow> string list" where
  "leg_rows content = filter (\<lambda>line. line \<noteq> []) (map strip content)"

text \<open>A row that the merge cannot parse.\<close>

definition malformed_row :: "string \<Rightarrow> bool" where
  "malformed_row line = (length (split line) < 9 \<or> py_int (split line ! 8) = None)"

section \<open>The converter \<open>convert_to_npy\<close>\<close>

text \<open>
  A row of a numeric table is the list of the real values of its float64 entries, which are
  taken to be finite. The arithmetic of \<open>pc_norm\<close> is that of float64: every operation returns
  its exact result rounded, so that it may overflow to an infinity or underflow to zero, and
  the special values propagate by the rules of IEEE 754. The rounding of an exact result to
  a float64 is the parameter \<open>rnd\<close> of the model. The two zeros of float64 are not told
  apart. None of the operations raises: numpy only warns on a division by zero.
\<close>

type_synonym row = "real list"

datatype fval = Finite real | PosInf | NegInf | NaN

type_synonym rounding = "real \<Rightarrow> fval"

fun is_finite :: "fval \<Rightarrow> bool" where
  "is_finite (Finite x) = True"
| "is_finite v = False"

fun fneg :: "fval \<Rightarrow> fval" where
  "fneg (Finite x) = Finite (- x)"
| "fneg PosInf = NegInf"
| "fneg NegInf = PosInf"
| "fneg NaN = NaN"

fun fadd :: "rounding \<Rightarrow> fval \<Rightarrow> fval \<Rightarrow> fval" where
  "fadd rnd (Finite x) (Finite y) = rnd (x + y)"
| "fadd rnd NaN b = NaN"
| "fadd rnd a NaN = NaN"
| "fadd rnd PosInf NegInf = NaN"
| "fadd rnd NegInf PosInf = NaN"
| "fadd rnd PosInf b = PosInf"
| "fadd rnd a PosInf = PosInf"
| "fadd rnd NegInf b = NegInf"
| "fadd rnd a NegInf = NegInf"

definition fsub :: "rounding \<Rightarrow> fval \<Rightarrow> fval \<Rightarrow> fval" where
  "fsub rnd a b = fadd rnd a (fneg b)"

text \<open>\<open>x ** 2\<close>, which numpy computes as the product of \<open>x\<close> with itself.\<close>

fun fsquare :: "rounding \<Rightarrow> fval \<Rightarrow> fval" where
  "fsquare rnd (Finite x) = rnd (x * x)"
| "fsquare rnd PosInf = PosInf"
| "fsquare rnd NegInf = PosInf"
| "fsquare rnd NaN = NaN"

fun fsqrt :: "rounding \<Rightarrow> fval \<Rightarrow> fval" where
  "fsqrt rnd (Finite x) = (if x < 0 then NaN else rnd (sqrt x))"
| "fsqrt rnd PosInf = PosInf"
| "fsqrt rnd NegInf = NaN"
| "fsqrt rnd NaN = NaN"

text \<open>
  The division of arrays. A zero divisor raises nothing: it yields NaN for a zero dividend
  and an infinity of the dividend's sign otherwise.
\<close>

fun fdiv :: "rounding \<Rightarrow> fval \<Rightarrow> fval \<Rightarrow> fval" where
  "fdiv rnd (Finite x) (Finite y) =
     (if y \<noteq> 0 then rnd (x / y)
      else if x = 0 then NaN
      else if 0 < x then PosInf
      else NegInf)"
| "fdiv rnd NaN b = NaN"
| "fdiv rnd a NaN = NaN"
| "fdiv rnd (Finite x) b = Finite 0"
| "fdiv rnd PosInf (Finite y) = (if y < 0 then NegInf else PosInf)"
| "fdiv rnd NegInf (Finite y) = (if y < 0 then PosInf else NegInf)"
| "fdiv rnd a b = NaN"

text \<open>The maximum of two values as \<open>np.max\<close> takes it: NaN propagates.\<close>

fun fmax :: "fval \<Rightarrow> fval \<Rightarrow> fval" where
  "fmax (Finite x) (Finite y) = Finite (max x y)"
| "fmax NaN b = NaN"
| "fmax a NaN = NaN"
| "fmax PosInf b = PosInf"
| "fmax a PosInf = PosInf"
| "fmax NegInf b = b"
| "fmax a NegInf = a"

text \<open>\<open>np.sum\<close> along an axis adds the entries from the first on.\<close>

fun np_sum :: "rounding \<Rightarrow> fval list \<Rightarrow> fval" where
  "np_sum rnd [] = Finite 0"
| "np_sum rnd (x # xs) = foldl (fadd rnd) x xs"

text \<open>\<open>np.max\<close> raises \<open>ValueError\<close> on an array without elements.\<close>

fun np_max :: "fval list \<Rightarrow> py_error + fval" where
  "np_max [] = Inl ValueError"
| "np_max (x # xs) = Inr (foldl fmax x xs)"

subsection \<open>\<open>farthest_point_sample\<close>\<close>

text \<open>
  \<open>np.sum((xyz - centroid) ** 2, -1)\<close> for one row. The sampling only compares these
  distances; they are computed exactly here.
\<close>

definition sq_dist :: "row \<Rightarrow> row \<Rightarrow> real" where
  "sq_dist p c = sum_list (map2 (\<lambda>a b. (a - b)\<^sup>2) p c)"

text \<open>\<open>np.argmax\<close>: the index of the first occurrence of the maximum.\<close>

fun argmax_from :: "real list \<Rightarrow> nat \<Rightarrow> nat \<Rightarrow> real \<Rightarrow> nat" where
  "argmax_from [] i best_i best = best_i"
| "argmax_from (x # xs) i best_i best =
     (if best < x then argmax_from xs (Suc i) i x
      else argmax_from xs (Suc i) best_i best)"

definition argmax :: "real list \<Rightarrow> nat" where
  "argmax xs = (case xs of [] \<Rightarrow> 0 | x # rest \<Rightarrow> argmax_from rest 1 0 x)"

text \<open>
  The loop \<open>for i in range(npoint)\<close>. The result is the list \<open>centroids\<close> of the selected
  indices.
\<close>

fun fps_loop :: "nat \<Rightarrow> row list \<Rightarrow> real list \<Rightarrow> nat \<Rightarrow> nat list" where
  "fps_loop 0 xyz distance farthest = []"
| "fps_loop (Suc n) xyz distance farthest =
     (let centroid = xyz ! farthest;
          dist = map (\<lambda>p. sq_dist p centroid) xyz;
          distance' = map2 (\<lambda>d old. if d < old then d else old) dist distance
      in farthest # fps_loop n xyz distance' (argmax distance'))"

text \<open>
  \<open>start\<close> is the value of \<open>np.random.randint(0, N)\<close>, which raises \<open>ValueError\<close> when
  \<open>N = 0\<close> and otherwise returns an index below \<open>N\<close>.
\<close>

definition farthest_point_sample :: "row list \<Rightarrow> nat \<Rightarrow> nat \<Rightarrow> py_error + row list" where
  "farthest_point_sample point npoint start =
     (let N = length point;
          xyz = map (take 3) point;
          distance = replicate N 10000000000
      in if N = 0 then Inl ValueError
         else if N \<le> start then Inl IndexError
         else Inr (map (\<lambda>i. point ! i) (fps_loop npoint xyz distance start)))"

subsection \<open>\<open>pc_norm\<close>\<close>

text \<open>
  \<open>np.mean(xyz, axis=0)\<close>, one column at a time: the sum of the column divided by the number
  of rows, which is exact as a float64.
\<close>

definition np_mean_col :: "rounding \<Rightarrow> fval list list \<Rightarrow> nat \<Rightarrow> fval" where
  "np_mean_col rnd xyz j =
     fdiv rnd (np_sum rnd (map (\<lambda>r. r ! j) xyz)) (Finite (real (length xyz)))"

text \<open>\<open>np.sqrt(np.sum(xyz ** 2, axis=1))\<close> for one row.\<close>

definition np_norm :: "rounding \<Rightarrow> fval list \<Rightarrow> fval" where
  "np_norm rnd r = fsqrt rnd (np_sum rnd (map (fsquare rnd) r))"

text \<open>Lines 36, 39 and 40: the spatial columns minus their centroid.\<close>

definition centered :: "rounding \<Rightarrow> row list \<Rightarrow> fval list list" where
  "centered rnd pc =
     (let xyz = map (\<lambda>r. map Finite (take 3 r)) pc;
          centroid = map (np_mean_col rnd xyz) [0..<length (hd xyz)]
      in map (\<lambda>r. map2 (fsub rnd) r centroid) xyz)"

text \<open>Line 41: the divisor \<open>m\<close>, the maximum of the norms of the centred rows.\<close>

definition norm_divisor :: "rounding \<Rightarrow> row list \<Rightarrow> py_error + fval" where
  "norm_divisor rnd pc = np_max (map (np_norm rnd) (centered rnd pc))"

text \<open>
  Nothing in \<open>pc_norm\<close> raises but \<open>np.max\<close> on an empty point set. There is no check of
  \<open>m\<close> before the division of line 42.
\<close>

definition pc_norm :: "rounding \<Rightarrow> row list \<Rightarrow> py_error + fval list list" where
  "pc_norm rnd pc =
     (let other_feature = map (drop 3) pc;
          xyz = centered rnd pc
      in case norm_divisor rnd pc of
           Inl e \<Rightarrow> Inl e
         | Inr m \<Rightarrow>
             Inr (map2 (@) (map (map (\<lambda>v. fdiv rnd v m)) xyz)
                    (map (map Finite) other_feature)))"

subsection \<open>Loading the table\<close>

text \<open>
  A numpy array of dimension 0, 1 or 2. \<open>Array2 ncols rows\<close> has the shape
  \<open>(length rows, ncols)\<close>.
\<close>

datatype ndarray = Array0 real | Array1 "real list" | Array2 nat "row list"

text \<open>
  \<open>np.loadtxt(input_file, delimiter=' ')\<close> on a file whose lines parse to the rows
  \<open>table\<close>. Rows of different lengths raise \<open>ValueError\<close>. The result is squeezed: a file of
  one row or of one column gives an array of dimension 1, a single number one of dimension 0,
  an empty file the empty array of dimension 1.
\<close>

definition loadtxt :: "row list \<Rightarrow> py_error + ndarray" where
  "loadtxt table =
     (case table of
        [] \<Rightarrow> Inr (Array1 [])
      | first # rest \<Rightarrow>
          let ncols = length first in
          if \<exists>r \<in> set rest. length r \<noteq> ncols then Inl ValueError
          else if rest = [] \<and> ncols = 1 then Inr (Array0 (hd first))
          else if rest = [] then Inr (Array1 first)
          else if ncols = 1 then Inr (Array1 (map hd table))
          else Inr (Array2 ncols table))"

text \<open>
  The \<open>print\<close> of line 67 evaluates \<open>data[0][:5]\<close>. On an array of dimension 2 that is the
  head of the first row. On one of dimension 1, \<open>data[0]\<close> is a scalar, which cannot be
  sliced; on an empty array or one of dimension 0, \<open>data[0]\<close> itself is out of range.
\<close>

definition sample :: "ndarray \<Rightarrow> py_error + real list" where
  "sample data =
     (case data of
        Array0 x \<Rightarrow> Inl IndexError
      | Array1 xs \<Rightarrow> Inl IndexError
      | Array2 ncols rows \<Rightarrow>
          (case rows of [] \<Rightarrow> Inl IndexError | r # rs \<Rightarrow> Inr (take 5 r)))"

text \<open>\<open>data.shape[1]\<close>\<close>

definition shape1 :: "ndarray \<Rightarrow> py_error + nat" where
  "shape1 data =
     (case data of
        Array0 x \<Rightarrow> Inl IndexError
      | Array1 xs \<Rightarrow> Inl IndexError
      | Array2 ncols rows \<Rightarrow> Inr ncols)"

definition rows_of :: "ndarray \<Rightarrow> row list" where
  "rows_of data =
     (case data of
        Array0 x \<Rightarrow> []
      | Array1 xs \<Rightarrow> []
      | Array2 ncols rows \<Rightarrow> rows)"

subsection \<open>The format branches and the colour padding\<close>

text \<open>
  Lines 70 to 82: eleven columns select the columns 0, 1, 2, 3 and 7; six columns keep all
  and divide the columns 3 to 5 by 255; any other count prints a warning and returns, which
  is \<open>None\<close> here.
\<close>

definition extract_columns :: "nat \<Rightarrow> row list \<Rightarrow> row list option" where
  "extract_columns ncols rows =
     (if ncols = 11 then Some (map (\<lambda>r. map (\<lambda>j. r ! j) [0, 1, 2, 3, 7]) rows)
      else if ncols = 6
        then Some (map (\<lambda>r. take 3 r @ map (\<lambda>v. v / 255) (take 3 (drop 3 r)) @ drop 6 r) rows)
      else None)"

text \<open>Lines 85 to 89.\<close>

definition color_padding :: "row list \<Rightarrow> row list" where
  "color_padding point_cloud = map (\<lambda>r. take 3 r @ replicate 3 0) point_cloud"

definition resolve_format :: "nat \<Rightarrow> row list \<Rightarrow> bool \<Rightarrow> row list option" where
  "resolve_format ncols rows add_color_padding =
     (case extract_columns ncols rows of
        None \<Rightarrow> None
      | Some point_cloud \<Rightarrow>
          Some (if add_color_padding then color_padding point_cloud else point_cloud))"

subsection \<open>Resampling to the target count\<close>

text \<open>
  \<open>np.random.choice(n, k, replace=...)\<close>. The generator is outside the model: \<open>drawn\<close> is
  the index list it produces, of which numpy guarantees \<open>choice_ok\<close>. The call raises
  \<open>ValueError\<close> on an empty population and, without replacement, on a size above the
  population.
\<close>

definition choice_ok :: "nat \<Rightarrow> nat \<Rightarrow> bool \<Rightarrow> nat list \<Rightarrow> bool" where
  "choice_ok n k replace drawn =
     (length drawn = k \<and> (\<forall>i \<in> set drawn. i < n) \<and> (replace \<or> distinct drawn))"

definition random_choice :: "nat \<Rightarrow> nat \<Rightarrow> bool \<Rightarrow> nat list \<Rightarrow> py_error + nat list" where
  "random_choice n k replace drawn =
     (if n = 0 \<and> 0 < k then Inl ValueError
      else if \<not> replace \<and> n < k then Inl ValueError
      else Inr drawn)"

text \<open>\<open>point_cloud[indices]\<close>; an index out of range raises \<open>IndexError\<close>.\<close>

definition take_rows :: "row list \<Rightarrow> nat list \<Rightarrow> py_error + row list" where
  "take_rows point_cloud indices =
     (if \<forall>i \<in> set indices. i < length point_cloud
      then Inr (map (\<lambda>i. point_cloud ! i) indices)
      else Inl IndexError)"

text \<open>
  Lines 92 to 104, with the target count as the parameter \<open>K\<close>; the source fixes it to
  8192.
\<close>

definition resample :: "nat \<Rightarrow> row list \<Rightarrow> nat list \<Rightarrow> py_error + row list" where
  "resample K point_cloud drawn =
     (if K < length point_cloud then
        (case random_choice (length point_cloud) K False drawn of
           Inl e \<Rightarrow> Inl e
         | Inr indices \<Rightarrow> take_rows point_cloud indices)
      else if length point_cloud < K then
        (case random_choice (length point_cloud) K True drawn of
           Inl e \<Rightarrow> Inl e
         | Inr indices \<Rightarrow> take_rows point_cloud indices)
      else Inr point_cloud)"

definition target_count :: nat where
  "target_count = 8192"

subsection \<open>The output name\<close>

definition lower :: "char \<Rightarrow> char" where
  "lower c =
     (let n = (of_char c :: nat)
      in if 65 \<le> n \<and> n \<le> 90 then char_of (n + 32) else c)"

text \<open>\<open>re.search(r"bridge_(\d+)", stem, re.IGNORECASE)\<close>: the digits of the leftmost match.\<close>

definition match_bridge :: "string \<Rightarrow> string option" where
  "match_bridge s =
     (if map lower (take 7 s) = ''bridge_'' \<and> takeWhile is_digit (drop 7 s) \<noteq> []
      then Some (takeWhile is_digit (drop 7 s)) else None)"

fun search_bridge :: "string \<Rightarrow> string option" where
  "search_bridge [] = None"
| "search_bridge (c # cs) =
     (case match_bridge (c # cs) of
        Some digits \<Rightarrow> Some digits
      | None \<Rightarrow> search_bridge cs)"

definition output_name :: "string \<Rightarrow> string" where
  "output_name stem =
     (case search_bridge stem of
        Some digits \<Rightarrow> ''bridge_'' @ digits @ ''_8192.npy''
      | None \<Rightarrow> stem @ ''_8192.npy'')"

subsection \<open>\<open>convert_bridge_data\<close>\<close>

text \<open>
  What a call does: it returns early on a missing file or an unsupported column count, or
  it saves an array under a name. The array saved is the result of \<open>pc_norm\<close>; its cast to
  float32 is not modelled.
\<close>

datatype outcome = NotFound | Unsupported nat | Saved string "fval list list"

text \<open>The part of the function after \<open>np.loadtxt\<close>.\<close>

definition convert_loaded ::
  "rounding \<Rightarrow> ndarray \<Rightarrow> string \<Rightarrow> bool \<Rightarrow> nat list \<Rightarrow> py_error + outcome" where
  "convert_loaded rnd data stem add_color_padding drawn =
     (case sample data of
        Inl e \<Rightarrow> Inl e
      | Inr shown \<Rightarrow>
          (case shape1 data of
             Inl e \<Rightarrow> Inl e
           | Inr ncols \<Rightarrow>
               (case resolve_format ncols (rows_of data) add_color_padding of
                  None \<Rightarrow> Inr (Unsupported ncols)
                | Some point_cloud \<Rightarrow>
                    (case resample target_count point_cloud drawn of
                       Inl e \<Rightarrow> Inl e
                     | Inr point_cloud' \<Rightarrow>
                         (case pc_norm rnd point_cloud' of
                            Inl e \<Rightarrow> Inl e
                          | Inr normalized \<Rightarrow> Inr (Saved (output_name stem) normalized))))))"

text \<open>
  The input file is \<open>None\<close> when the path does not exist, and otherwise the stem of its name
  with the rows its lines parse to.
\<close>

definition convert_bridge_data ::
  "rounding \<Rightarrow> (string \<times> row list) option \<Rightarrow> bool \<Rightarrow> nat list \<Rightarrow> py_error + outcome" where
  "convert_bridge_data rnd input_file add_color_padding drawn =
     (case input_file of
        None \<Rightarrow> Inr NotFound
      | Some (stem, table) \<Rightarrow>
          (case loadtxt table of
             Inl e \<Rightarrow> Inl e
           | Inr data \<Rightarrow> convert_loaded rnd data stem add_color_padding drawn))"

text \<open>The files that a call has written.\<close>

definition artifacts :: "py_error + outcome \<Rightarrow> (string \<times> fval list list) list" where
  "artifacts result =
     (case result of
        Inr (Saved name array) \<Rightarrow> [(name, array)]
      | _ \<Rightarrow> [])"

section \<open>Auxiliary notions and concrete inputs\<close>

definition all_rows :: "leg_file list \<Rightarrow> string list" where
  "all_rows listing = concat (map (\<lambda>(fname, content). leg_rows content) (xyz_files listing))"

definition leg_a :: leg_file where
  "leg_a = (''a.xyz'', [''1 1 1 1 1 1 1 1 1''])"

definition leg_b :: leg_file where
  "leg_b = (''b.xyz'', [''2 2 2 2 2 2 2 2 2''])"

definition leg_short :: leg_file where
  "leg_short = (''c.xyz'', [''3 3 3 3 3 3 3 3''])"


text \<open>
  A point set of 8193 rows of six channels: 8192 copies of the origin and one point at
  distance 1 from it.
\<close>

definition origin_row :: row where
  "origin_row = [0, 0, 0, 0, 0, 0]"

definition far_row :: row where
  "far_row = [1, 0, 0, 0, 0, 0]"

definition fps_cloud :: "row list" where
  "fps_cloud = replicate 8192 origin_row @ [far_row]"

text \<open>
  The postcondition of the normalisation is stated with the mean of a column and the
  Euclidean norm of real vectors.
\<close>

definition col_mean :: "row list \<Rightarrow> nat \<Rightarrow> real" where
  "col_mean xyz j = sum_list (map (\<lambda>r. r ! j) xyz) / real (length xyz)"

definition row_norm :: "row \<Rightarrow> real" where
  "row_norm r = sqrt (sum_list (map (\<lambda>v. v\<^sup>2) r))"

text \<open>
  What \<open>centered\<close> and \<open>norm_divisor\<close> compute when no operation rounds, which is the case
  of the rounding \<open>Finite\<close>.
\<close>

definition exact_centered :: "row list \<Rightarrow> row list" where
  "exact_centered pc =
     (let xyz = map (take 3) pc;
          centroid = map (col_mean xyz) [0..<length (hd xyz)]
      in map (\<lambda>r. map2 (-) r centroid) xyz)"

definition exact_divisor :: "row list \<Rightarrow> real" where
  "exact_divisor pc = Max (set (map row_norm (exact_centered pc)))"

text \<open>
  The range of float64 without the rounding of its mantissa: a result of magnitude
  \<open>2 ^ 1024\<close> or more overflows, one of magnitude below \<open>2 ^ -1075\<close> underflows to zero,
  and any other is kept. On a result that is a float64, and on one outside the range, this
  is the rounding of float64; the examples below meet no other result.
\<close>

definition float64_range :: rounding where
  "float64_range x =
     (if 2 ^ 1024 \<le> x then PosInf
      else if x \<le> - (2 ^ 1024) then NegInf
      else if \<bar>x\<bar> < 1 / 2 ^ 1075 then Finite 0
      else Finite x)"

text \<open>Two points at distance \<open>2 ^ 601\<close>, and two at distance \<open>2 ^ -599\<close>.\<close>

definition far_apart :: "row list" where
  "far_apart = [[2 ^ 600, 0, 0, 7, 8], [- (2 ^ 600), 0, 0, 9, 10]]"

definition close_together :: "row list" where
  "close_together = [[1 / 2 ^ 600, 0, 0, 7, 8], [- (1 / 2 ^ 600), 0, 0, 9, 10]]"

section \<open>Properties of the leg merge\<close>

lemma read_leg_Inr_lines:
  "read_leg ls (al, cf) = Inr (al', cf') \<Longrightarrow> al' = al @ leg_rows ls"
proof (induction ls arbitrary: al cf)
  case Nil
  then show ?case by (simp add: leg_rows_def)
next
  case (Cons l ls)
  show ?case
  proof (cases "strip l = []")
    case True
    with Cons.prems have "read_leg ls (al, cf) = Inr (al', cf')" by simp
    from Cons.IH [OF this] True show ?thesis by (simp add: leg_rows_def)
  next
    case False
    with Cons.prems obtain k where
      "read_leg ls (al @ [strip l], append_component cf k (strip l)) = Inr (al', cf')"
      by (auto simp: Let_def split: if_splits option.splits)
    from Cons.IH [OF this] False show ?thesis by (simp add: leg_rows_def)
  qed
qed

lemma read_leg_malformed:
  "\<exists>l\<in>set (leg_rows ls). malformed_row l \<Longrightarrow> \<exists>e. read_leg ls st = Inl e"
proof (induction ls arbitrary: st)
  case Nil
  then show ?case by (simp add: leg_rows_def)
next
  case (Cons l ls)
  obtain al cf where st: "st = (al, cf)" by (cases st)
  show ?case
  proof (cases "strip l = []")
    case True
    with Cons.prems have "\<exists>l\<in>set (leg_rows ls). malformed_row l"
      by (simp add: leg_rows_def)
    from Cons.IH [OF this] True st show ?thesis by simp
  next
    case False
    show ?thesis
    proof (cases "malformed_row (strip l)")
      case True
      with False st show ?thesis
        by (auto simp: malformed_row_def Let_def split: option.splits)
    next
      case good: False
      with Cons.prems False have "\<exists>l\<in>set (leg_rows ls). malformed_row l"
        by (auto simp: leg_rows_def)
      from Cons.IH [OF this] False st show ?thesis
        by (auto simp: Let_def split: option.splits)
    qed
  qed
qed

lemma read_leg_wellformed:
  "\<forall>l\<in>set (leg_rows ls). \<not> malformed_row l \<Longrightarrow> \<exists>st'. read_leg ls st = Inr st'"
proof (induction ls arbitrary: st)
  case Nil
  then show ?case by simp
next
  case (Cons l ls)
  obtain al cf where st: "st = (al, cf)" by (cases st)
  from Cons.prems have rest: "\<forall>l\<in>set (leg_rows ls). \<not> malformed_row l"
    by (auto simp: leg_rows_def)
  show ?case
  proof (cases "strip l = []")
    case True
    with Cons.IH [OF rest] st show ?thesis by simp
  next
    case False
    with Cons.prems have "\<not> malformed_row (strip l)"
      by (simp add: leg_rows_def)
    then obtain k where "8 < length (split (strip l))" "py_int (split (strip l) ! 8) = Some k"
      by (auto simp: malformed_row_def)
    with Cons.IH [OF rest] False st show ?thesis
      by (simp add: Let_def)
  qed
qed

lemma read_legs_Inr_lines:
  "read_legs fs (al, cf) = Inr (al', cf') \<Longrightarrow>
   al' = al @ concat (map (\<lambda>(fname, content). leg_rows content) fs)"
proof (induction fs arbitrary: al cf)
  case Nil
  then show ?case by simp
next
  case (Cons f fs)
  obtain fname content where f: "f = (fname, content)" by (cases f)
  from Cons.prems f obtain al1 cf1 where
    one: "read_leg content (al, cf) = Inr (al1, cf1)" and
    rest: "read_legs fs (al1, cf1) = Inr (al', cf')"
    by (auto split: sum.splits)
  from read_leg_Inr_lines [OF one] Cons.IH [OF rest] f show ?case by simp
qed

lemma read_legs_malformed:
  "\<exists>l\<in>set (concat (map (\<lambda>(fname, content). leg_rows content) fs)). malformed_row l \<Longrightarrow>
   \<exists>e. read_legs fs st = Inl e"
proof (induction fs arbitrary: st)
  case Nil
  then show ?case by simp
next
  case (Cons f fs)
  obtain fname content where f: "f = (fname, content)" by (cases f)
  show ?case
  proof (cases "read_leg content st")
    case (Inl e)
    with f show ?thesis by simp
  next
    case (Inr st')
    have "\<not> (\<exists>l\<in>set (leg_rows content). malformed_row l)"
      using read_leg_malformed [of content st] Inr by auto
    with Cons.prems f
    have "\<exists>l\<in>set (concat (map (\<lambda>(fname, content). leg_rows content) fs)). malformed_row l"
      by auto
    from Cons.IH [OF this, of st'] Inr f show ?thesis by simp
  qed
qed

lemma read_legs_wellformed:
  "\<forall>l\<in>set (concat (map (\<lambda>(fname, content). leg_rows content) fs)). \<not> malformed_row l \<Longrightarrow>
   \<exists>st'. read_legs fs st = Inr st'"
proof (induction fs arbitrary: st)
  case Nil
  then show ?case by simp
next
  case (Cons f fs)
  obtain fname content where f: "f = (fname, content)" by (cases f)
  from Cons.prems f have here: "\<forall>l\<in>set (leg_rows content). \<not> malformed_row l"
    and rest: "\<forall>l\<in>set (concat (map (\<lambda>(fname, content). leg_rows content) fs)). \<not> malformed_row l"
    by auto
  from read_leg_wellformed [OF here, of st] obtain st' where "read_leg content st = Inr st'" ..
  with Cons.IH [OF rest, of st'] f show ?case by simp
qed

lemma mset_all_rows:
  "mset (all_rows listing) =
   (\<Sum>f\<in>#filter_mset (\<lambda>(fname, content). endswith fname ''.xyz'') (mset listing).
      mset (leg_rows (snd f)))"
  unfolding all_rows_def xyz_files_def
  by (induction listing) (auto simp: case_prod_beta)

lemma set_all_rows_perm:
  "mset listing' = mset listing \<Longrightarrow> mset (all_rows listing') = mset (all_rows listing)"
  by (simp add: mset_all_rows)


lemma merge_legs_lines:
  "merge_legs listing = Inr (al, cf) \<Longrightarrow> al = all_rows listing"
  unfolding merge_legs_def all_rows_def
  by (drule read_legs_Inr_lines) simp

lemma merge_legs_malformed:
  "\<exists>l\<in>set (all_rows listing). malformed_row l \<Longrightarrow> \<exists>e. merge_legs listing = Inl e"
  unfolding merge_legs_def all_rows_def by (rule read_legs_malformed)

lemma merge_legs_wellformed:
  "\<forall>l\<in>set (all_rows listing). \<not> malformed_row l \<Longrightarrow> \<exists>al cf. merge_legs listing = Inr (al, cf)"
  unfolding merge_legs_def all_rows_def
  using read_legs_wellformed [of "xyz_files listing" "([], Map.empty)"] by auto

text \<open>
  Claim C3, as amended. The leg files are processed in the order of the directory listing,
  which the source does not sort: the merged rows are the rows of the \<open>.xyz\<close> files of the
  listing, file after file in listing order and line after line within a file. A second
  run over the same files, listed in any order, succeeds as well and yields the same rows
  as a multiset; the order of the rows follows the listing.
\<close>

theorem merge_follows_listing_order:
  assumes "merge_legs listing = Inr (all_lines, component_files)"
  shows "all_lines = concat (map (\<lambda>(fname, content). leg_rows content) (xyz_files listing)) \<and>
         (\<forall>listing'. mset listing' = mset listing \<longrightarrow>
            (\<exists>all_lines' component_files'.
               merge_legs listing' = Inr (all_lines', component_files') \<and>
               mset all_lines' = mset all_lines))"
proof -
  have lines: "all_lines = all_rows listing"
    using assms by (rule merge_legs_lines)
  have good: "\<forall>l\<in>set (all_rows listing). \<not> malformed_row l"
    using merge_legs_malformed [of listing] assms by auto
  have "\<exists>all_lines' component_files'.
          merge_legs listing' = Inr (all_lines', component_files') \<and>
          mset all_lines' = mset all_lines"
    if perm: "mset listing' = mset listing" for listing'
  proof -
    have eq: "mset (all_rows listing') = mset (all_rows listing)"
      using perm by (rule set_all_rows_perm)
    then have "set (all_rows listing') = set (all_rows listing)"
      by (rule mset_eq_setD)
    with good have "\<forall>l\<in>set (all_rows listing'). \<not> malformed_row l" by simp
    from merge_legs_wellformed [OF this] obtain al' cf' where
      m: "merge_legs listing' = Inr (al', cf')" by blast
    from merge_legs_lines [OF m] eq lines have "mset al' = mset all_lines" by simp
    with m show ?thesis by blast
  qed
  with lines show ?thesis by (simp add: all_rows_def)
qed

lemma split_row_a: "split ''1 1 1 1 1 1 1 1 1'' = [''1'',''1'',''1'',''1'',''1'',''1'',''1'',''1'',''1'']"
  by (simp add: split_def is_space_def)

lemma strip_row_a: "strip ''1 1 1 1 1 1 1 1 1'' = ''1 1 1 1 1 1 1 1 1''"
  by (simp add: strip_def is_space_def)

lemma split_row_b: "split ''2 2 2 2 2 2 2 2 2'' = [''2'',''2'',''2'',''2'',''2'',''2'',''2'',''2'',''2'']"
  by (simp add: split_def is_space_def)

lemma strip_row_b: "strip ''2 2 2 2 2 2 2 2 2'' = ''2 2 2 2 2 2 2 2 2''"
  by (simp add: strip_def is_space_def)

lemma py_int_1: "py_int ''1'' = Some 1"
  by (simp add: py_int_def is_digit_def digit_val_def)

lemma py_int_2: "py_int ''2'' = Some 2"
  by (simp add: py_int_def is_digit_def digit_val_def)

lemma merge_ab:
  "merge_legs [leg_a, leg_b] =
     Inr ([''1 1 1 1 1 1 1 1 1'', ''2 2 2 2 2 2 2 2 2''],
          [1 \<mapsto> [''1 1 1 1 1 1 1 1 1''], 2 \<mapsto> [''2 2 2 2 2 2 2 2 2'']])"
  by (simp add: merge_legs_def xyz_files_def endswith_def leg_a_def leg_b_def
      strip_row_a strip_row_b split_row_a split_row_b py_int_1 py_int_2 append_component_def Let_def)

lemma merge_ba:
  "merge_legs [leg_b, leg_a] =
     Inr ([''2 2 2 2 2 2 2 2 2'', ''1 1 1 1 1 1 1 1 1''],
          [2 \<mapsto> [''2 2 2 2 2 2 2 2 2''], 1 \<mapsto> [''1 1 1 1 1 1 1 1 1'']])"
  by (simp add: merge_legs_def xyz_files_def endswith_def leg_a_def leg_b_def
      strip_row_a strip_row_b split_row_a split_row_b py_int_1 py_int_2 append_component_def Let_def)

text \<open>
  Claim C3 as stated fails: the same two leg files, listed as \<open>b.xyz, a.xyz\<close>, are merged
  with the rows of \<open>b.xyz\<close> first, and the merged file differs from the one written for the
  listing \<open>a.xyz, b.xyz\<close>.
\<close>

theorem merge_order_counterexample:
  "mset [leg_b, leg_a] = mset [leg_a, leg_b] \<and>
   snd (merge_and_write Map.empty ''7'' [leg_a, leg_b]) (merged_output_file ''7'') =
     Some (''1 1 1 1 1 1 1 1 1'' @ [CHR 0x0A] @ ''2 2 2 2 2 2 2 2 2'' @ [CHR 0x0A]) \<and>
   snd (merge_and_write Map.empty ''7'' [leg_b, leg_a]) (merged_output_file ''7'') =
     Some (''2 2 2 2 2 2 2 2 2'' @ [CHR 0x0A] @ ''1 1 1 1 1 1 1 1 1'' @ [CHR 0x0A]) \<and>
   snd (merge_and_write Map.empty ''7'' [leg_b, leg_a]) (merged_output_file ''7'') \<noteq>
   snd (merge_and_write Map.empty ''7'' [leg_a, leg_b]) (merged_output_file ''7'')"
  by (simp add: merge_and_write_def merge_ab merge_ba merged_text_def add.commute)

text \<open>Claim C3, as amended, at the two listings of the files \<open>a.xyz\<close> and \<open>b.xyz\<close>.\<close>

theorem merge_follows_listing_order_witness:
  "merge_legs [leg_b, leg_a] =
     Inr ([''2 2 2 2 2 2 2 2 2'', ''1 1 1 1 1 1 1 1 1''],
          [2 \<mapsto> [''2 2 2 2 2 2 2 2 2''], 1 \<mapsto> [''1 1 1 1 1 1 1 1 1'']]) \<and>
   [''2 2 2 2 2 2 2 2 2'', ''1 1 1 1 1 1 1 1 1''] =
     concat (map (\<lambda>(fname, content). leg_rows content) (xyz_files [leg_b, leg_a])) \<and>
   mset [leg_a, leg_b] = mset [leg_b, leg_a] \<and>
   (\<exists>all_lines' component_files'.
      merge_legs [leg_a, leg_b] = Inr (all_lines', component_files') \<and>
      mset all_lines' = mset [''2 2 2 2 2 2 2 2 2'', ''1 1 1 1 1 1 1 1 1''])"
proof -
  have perm: "mset [leg_a, leg_b] = mset [leg_b, leg_a]" by (simp add: add.commute)
  from merge_follows_listing_order [OF merge_ba] perm merge_ba show ?thesis by blast
qed

text \<open>
  Claim C9. If a row of a leg file of the session, that is a stripped line that is not
  blank, has fewer than nine fields or a ninth field that is no integer, the merge raises:
  the file system is left as it was, so no merged file is written, and no grouping is
  returned.
\<close>

theorem malformed_row_aborts_merge:
  assumes "(fname, content) \<in> set (xyz_files listing)"
    and "line \<in> set (leg_rows content)"
    and "malformed_row line"
  shows "\<exists>e. merge_and_write fs bridge_id listing = (Inl e, fs)"
proof -
  from assms have "\<exists>l\<in>set (all_rows listing). malformed_row l"
    unfolding all_rows_def by force
  from merge_legs_malformed [OF this] obtain e where "merge_legs listing = Inl e" ..
  then show ?thesis by (simp add: merge_and_write_def)
qed

lemma split_row_short: "split ''3 3 3 3 3 3 3 3'' = [''3'',''3'',''3'',''3'',''3'',''3'',''3'',''3'']"
  by (simp add: split_def is_space_def)

lemma strip_row_short: "strip ''3 3 3 3 3 3 3 3'' = ''3 3 3 3 3 3 3 3''"
  by (simp add: strip_def is_space_def)

text \<open>Claim C9 at a session whose second leg file has a row of eight fields.\<close>

theorem malformed_row_aborts_merge_witness:
  "leg_short \<in> set (xyz_files [leg_a, leg_short, leg_b]) \<and>
   ''3 3 3 3 3 3 3 3'' \<in> set (leg_rows (snd leg_short)) \<and>
   malformed_row ''3 3 3 3 3 3 3 3'' \<and>
   (\<exists>e. merge_and_write Map.empty ''7'' [leg_a, leg_short, leg_b] = (Inl e, Map.empty))"
proof -
  have a: "(''c.xyz'', [''3 3 3 3 3 3 3 3'']) \<in> set (xyz_files [leg_a, leg_short, leg_b])"
    by (simp add: xyz_files_def endswith_def leg_a_def leg_b_def leg_short_def)
  have b: "''3 3 3 3 3 3 3 3'' \<in> set (leg_rows [''3 3 3 3 3 3 3 3''])"
    by (simp add: leg_rows_def strip_row_short)
  have c: "malformed_row ''3 3 3 3 3 3 3 3''"
    by (simp add: malformed_row_def split_row_short)
  from malformed_row_aborts_merge [OF a b c, of Map.empty "''7''"] a b c
  show ?thesis by (simp add: leg_short_def)
qed

section \<open>Properties of the converter\<close>

text \<open>
  Claim C4. For a point set of at least one row and a target \<open>K\<close> of at least one, the
  resampling returns exactly \<open>K\<close> rows, whether it samples without replacement (more than
  \<open>K\<close> rows), with replacement (fewer) or passes the set through (exactly \<open>K\<close>). The drawn
  indices are those of \<open>np.random.choice\<close>.
\<close>

theorem resample_cardinality:
  assumes "1 \<le> length point_cloud" and "1 \<le> K"
    and "choice_ok (length point_cloud) K (length point_cloud < K) drawn"
  shows "\<exists>out. resample K point_cloud drawn = Inr out \<and> length out = K"
proof -
  consider (down) "K < length point_cloud" | (up) "length point_cloud < K"
    | (same) "length point_cloud = K"
    by linarith
  then show ?thesis
  proof cases
    case down
    then have "point_cloud \<noteq> []" by auto
    with down assms show ?thesis
      by (simp add: resample_def random_choice_def take_rows_def choice_ok_def)
  next
    case up
    from assms(1) have "point_cloud \<noteq> []" by auto
    with up assms show ?thesis
      by (simp add: resample_def random_choice_def take_rows_def choice_ok_def)
  next
    case same
    then show ?thesis by (simp add: resample_def)
  qed
qed

text \<open>Claim C4 at one row resampled to two.\<close>

theorem resample_cardinality_witness:
  "1 \<le> length [[1, 2, 3 :: real]] \<and> (1 :: nat) \<le> 2 \<and>
   choice_ok (length [[1, 2, 3 :: real]]) 2 (length [[1, 2, 3 :: real]] < 2) [0, 0] \<and>
   (\<exists>out. resample 2 [[1, 2, 3]] [0, 0] = Inr out \<and> length out = 2)"
proof -
  have a: "1 \<le> length [[1, 2, 3 :: real]]" by simp
  have b: "(1 :: nat) \<le> 2" by simp
  have c: "choice_ok (length [[1, 2, 3 :: real]]) 2 (length [[1, 2, 3 :: real]] < 2) [0, 0]"
    by (simp add: choice_ok_def)
  from resample_cardinality [OF a b c] a b c show ?thesis by blast
qed

text \<open>
  Claim C5. A point set of exactly \<open>K\<close> rows is returned as it is: the same rows in the same
  order, whatever the random source would draw.
\<close>

theorem resample_identity:
  assumes "length point_cloud = K"
  shows "\<exists>out. resample K point_cloud drawn = Inr out \<and> out = point_cloud \<and>
           mset out = mset point_cloud"
  using assms by (simp add: resample_def)

text \<open>Claim C5 at two rows and the target two.\<close>

theorem resample_identity_witness:
  "length [[1, 2, 3 :: real], [4, 5, 6]] = 2 \<and>
   (\<exists>out. resample 2 [[1, 2, 3], [4, 5, 6]] [1, 0] = Inr out \<and>
      out = [[1, 2, 3], [4, 5, 6]] \<and> mset out = mset [[1, 2, 3], [4, 5, 6]])"
proof -
  have a: "length [[1, 2, 3 :: real], [4, 5, 6]] = 2" by simp
  from resample_identity [OF a, of "[1, 0]"] a show ?thesis by blast
qed

lemma take_3_nth: "3 \<le> length r \<Longrightarrow> take 3 r = [r ! 0, r ! 1, r ! 2]"
proof -
  assume "3 \<le> length r"
  then obtain a b c rest where "r = a # b # c # rest"
    by (cases r; cases "tl r"; cases "tl (tl r)") auto
  then show ?thesis by simp
qed

text \<open>
  Claim C8. With the colour padding, a table of eleven or of six columns is resolved to
  rows of six channels: the columns 0, 1 and 2 of the source row, then three zeros. No other
  channel of the source is kept.
\<close>

theorem color_padding_six_channels:
  assumes "ncols = 11 \<or> ncols = 6"
    and "\<forall>r \<in> set rows. length r = ncols"
  shows "resolve_format ncols rows True = Some (map (\<lambda>r. [r ! 0, r ! 1, r ! 2, 0, 0, 0]) rows)"
proof -
  have three: "take 3 r = [r ! 0, r ! 1, r ! 2]" if "r \<in> set rows" for r
    using that assms by (intro take_3_nth) auto
  from assms(1) show ?thesis
  proof
    assume "ncols = 11"
    then show ?thesis
      by (simp add: resolve_format_def extract_columns_def color_padding_def
          numeral_3_eq_3)
  next
    assume "ncols = 6"
    then show ?thesis
      using three
      by (simp add: resolve_format_def extract_columns_def color_padding_def
          numeral_3_eq_3)
  qed
qed


text \<open>Claim C8 at one row of the schema of eleven columns.\<close>

theorem color_padding_six_channels_witness:
  "((11 :: nat) = 11 \<or> (11 :: nat) = 6) \<and>
   list_all (\<lambda>r. length r = 11) [[1, 2, 3, 4, 5, 6, 7, 8, 9, 10, 11 :: real]] \<and>
   resolve_format 11 [[1, 2, 3, 4, 5, 6, 7, 8, 9, 10, 11]] True = Some [[1, 2, 3, 0, 0, 0]]"
proof -
  have a: "(11 :: nat) = 11 \<or> (11 :: nat) = 6" by simp
  have b: "\<forall>r \<in> set [[1, 2, 3, 4, 5, 6, 7, 8, 9, 10, 11 :: real]]. length r = 11" by simp
  from color_padding_six_channels [OF a b] show ?thesis by simp
qed






text \<open>
  Claim C10. A file of exactly one row is loaded as an array that is not of dimension 2:
  it has no column count (\<open>data.shape[1]\<close> is out of range), and already the sample printed
  before the format check raises \<open>IndexError\<close>. The call raises, whatever the number of
  fields of the row, and writes no file.
\<close>

theorem single_row_raises:
  "(\<exists>data. loadtxt [r] = Inr data \<and> (\<forall>ncols rows. data \<noteq> Array2 ncols rows) \<and>
      sample data = Inl IndexError \<and> shape1 data = Inl IndexError) \<and>
   convert_bridge_data rnd (Some (stem, [r])) add_color_padding drawn = Inl IndexError \<and>
   artifacts (convert_bridge_data rnd (Some (stem, [r])) add_color_padding drawn) = []"
proof (cases "length r = 1")
  case True
  then have "loadtxt [r] = Inr (Array0 (hd r))" by (simp add: loadtxt_def)
  then show ?thesis
    by (simp add: convert_bridge_data_def convert_loaded_def sample_def shape1_def artifacts_def)
next
  case False
  then have "loadtxt [r] = Inr (Array1 r)" by (simp add: loadtxt_def)
  then show ?thesis
    by (simp add: convert_bridge_data_def convert_loaded_def sample_def shape1_def artifacts_def)
qed

text \<open>Claim C10 at a single row of six fields.\<close>

theorem single_row_raises_witness:
  "loadtxt [[1, 2, 3, 4, 5, 6]] = Inr (Array1 [1, 2, 3, 4, 5, 6]) \<and>
   convert_bridge_data float64_range (Some (''TLS_5_complete'', [[1, 2, 3, 4, 5, 6]])) False [] =
     Inl IndexError \<and>
   artifacts (convert_bridge_data float64_range (Some (''TLS_5_complete'', [[1, 2, 3, 4, 5, 6]])) False []) = []"
proof -
  have "loadtxt [[1, 2, 3, 4, 5, 6]] = Inr (Array1 [1, 2, 3, 4, 5, 6])"
    by (simp add: loadtxt_def)
  with single_row_raises [of "[1, 2, 3, 4, 5, 6]" float64_range "''TLS_5_complete''" False "[]"]
  show ?thesis by blast
qed

section \<open>Properties of the normalisation\<close>


lemma take_drop_map2_append:
  assumes "length S = length A" and "\<forall>s \<in> set S. length s = 3"
  shows "map (take 3) (map2 (@) S A) = S" and "map (drop 3) (map2 (@) S A) = A"
  using assms by (induction S A rule: list_induct2) simp_all

lemma centered_shape:
  assumes "pc \<noteq> []" and "\<forall>r \<in> set pc. length r = ncols" and "3 \<le> ncols"
  shows "length (centered rnd pc) = length pc"
    and "\<forall>c \<in> set (centered rnd pc). length c = 3"
proof -
  from assms obtain p ps where pc: "pc = p # ps" by (cases pc) auto
  with assms have "length p = ncols" by simp
  with assms(3) have hd3: "length (hd (map (\<lambda>r. map Finite (take 3 r)) pc)) = 3"
    by (simp add: pc)
  show "length (centered rnd pc) = length pc"
    by (simp add: centered_def Let_def)
  show "\<forall>c \<in> set (centered rnd pc). length c = 3"
    using assms(2,3) unfolding centered_def Let_def hd3 by auto
qed

lemma centered_Nil: "centered rnd [] = []"
  by (simp add: centered_def Let_def)

lemma norm_divisor_nonempty:
  assumes "pc \<noteq> []"
  shows "\<exists>m. norm_divisor rnd pc = Inr m"
proof -
  have "length (centered rnd pc) = length pc" by (simp add: centered_def Let_def)
  with assms obtain c cs where "centered rnd pc = c # cs"
    by (cases "centered rnd pc") auto
  then show ?thesis by (simp add: norm_divisor_def)
qed

lemma norm_divisor_Inr_nonempty: "norm_divisor rnd pc = Inr m \<Longrightarrow> pc \<noteq> []"
  by (auto simp: norm_divisor_def centered_Nil)

lemma pc_norm_shape:
  assumes "\<forall>r \<in> set pc. length r = ncols" and "3 \<le> ncols"
    and "norm_divisor rnd pc = Inr m"
  defines "out \<equiv> map2 (@) (map (map (\<lambda>v. fdiv rnd v m)) (centered rnd pc))
                    (map (map Finite) (map (drop 3) pc))"
  shows "pc_norm rnd pc = Inr out"
    and "length out = length pc"
    and "map (take 3) out = map (map (\<lambda>v. fdiv rnd v m)) (centered rnd pc)"
    and "map (drop 3) out = map (map Finite) (map (drop 3) pc)"
    and "\<forall>r \<in> set out. length r = ncols"
proof -
  have ne: "pc \<noteq> []" using assms(3) by (rule norm_divisor_Inr_nonempty)
  note shape = centered_shape [OF ne assms(1,2), of rnd]
  show "pc_norm rnd pc = Inr out"
    by (simp add: pc_norm_def Let_def assms(3) out_def)
  have len: "length (map (map (\<lambda>v. fdiv rnd v m)) (centered rnd pc)) =
             length (map (map Finite) (map (drop 3) pc))"
    using shape(1) by simp
  have l3: "\<forall>s \<in> set (map (map (\<lambda>v. fdiv rnd v m)) (centered rnd pc)). length s = 3"
    using shape(2) by simp
  show "length out = length pc"
    using shape(1) by (simp add: out_def)
  show "map (take 3) out = map (map (\<lambda>v. fdiv rnd v m)) (centered rnd pc)"
    unfolding out_def by (rule take_drop_map2_append(1) [OF len l3])
  show "map (drop 3) out = map (map Finite) (map (drop 3) pc)"
    unfolding out_def by (rule take_drop_map2_append(2) [OF len l3])
  show "\<forall>r \<in> set out. length r = ncols"
  proof
    fix r assume "r \<in> set out"
    then obtain s a where "r = s @ a"
      and s: "s \<in> set (map (map (\<lambda>v. fdiv rnd v m)) (centered rnd pc))"
      and a: "a \<in> set (map (map Finite) (map (drop 3) pc))"
      unfolding out_def by (auto simp: set_zip)
    moreover from s l3 have "length s = 3" by blast
    moreover from a assms(1) have "length a = ncols - 3" by auto
    ultimately show "length r = ncols" using assms(2) by simp
  qed
qed

lemma fdiv_zero_not_finite: "\<not> is_finite (fdiv rnd v (Finite 0))"
  by (cases v) auto

text \<open>
  Claim C2, as amended. When the divisor \<open>m\<close> that the normalisation computes is zero, it
  raises nothing: it returns as many rows and columns as it was given, every spatial
  coordinate of the result is NaN or an infinity, and the attribute channels are those of
  the input. This holds for every rounding.
\<close>

theorem pc_norm_zero_divisor:
  assumes "\<forall>r \<in> set pc. length r = ncols" and "3 \<le> ncols"
    and "norm_divisor rnd pc = Inr (Finite 0)"
  shows "\<exists>out. pc_norm rnd pc = Inr out \<and> length out = length pc \<and>
           (\<forall>r \<in> set out. length r = ncols \<and> (\<forall>v \<in> set (take 3 r). \<not> is_finite v)) \<and>
           map (drop 3) out = map (map Finite) (map (drop 3) pc)"
proof -
  define out where "out = map2 (@) (map (map (\<lambda>v. fdiv rnd v (Finite 0))) (centered rnd pc))
                    (map (map Finite) (map (drop 3) pc))"
  note facts = pc_norm_shape [OF assms, folded out_def]
  have "\<forall>v \<in> set (take 3 r). \<not> is_finite v" if "r \<in> set out" for r
  proof -
    from that have "take 3 r \<in> set (map (take 3) out)" by simp
    then have "take 3 r \<in> set (map (map (\<lambda>v. fdiv rnd v (Finite 0))) (centered rnd pc))"
      by (simp only: facts(3))
    then show ?thesis by (auto simp: fdiv_zero_not_finite)
  qed
  with facts(1,2,4,5) show ?thesis by blast
qed


lemma upt_3: "[0..<3] = [0, 1, 2]"
  by (simp add: upt_conv_Cons numeral_3_eq_3)

lemma float64_range_small [simp]:
  "float64_range 0 = Finite 0" "float64_range 1 = Finite 1"
  "float64_range 2 = Finite 2" "float64_range 3 = Finite 3"
  by (simp_all add: float64_range_def)

lemma single_point_norm:
  "norm_divisor float64_range [[1, 2, 3, 4, 5]] = Inr (Finite 0)"
  "pc_norm float64_range [[1, 2, 3, 4, 5]] = Inr [[NaN, NaN, NaN, Finite 4, Finite 5]]"
  by (simp_all add: pc_norm_def norm_divisor_def centered_def np_mean_col_def np_norm_def
      fsub_def Let_def upt_3)


lemma far_apart_norm:
  "norm_divisor float64_range far_apart = Inr PosInf"
  "pc_norm float64_range far_apart =
     Inr [[Finite 0, Finite 0, Finite 0, Finite 7, Finite 8],
          [Finite 0, Finite 0, Finite 0, Finite 9, Finite 10]]"
  by (simp_all add: pc_norm_def norm_divisor_def centered_def np_mean_col_def np_norm_def
      fsub_def Let_def upt_3 far_apart_def float64_range_def)

lemma close_together_norm:
  "norm_divisor float64_range close_together = Inr (Finite 0)"
  "pc_norm float64_range close_together =
     Inr [[PosInf, NaN, NaN, Finite 7, Finite 8],
          [NegInf, NaN, NaN, Finite 9, Finite 10]]"
  by (simp_all add: pc_norm_def norm_divisor_def centered_def np_mean_col_def np_norm_def
      fsub_def Let_def upt_3 close_together_def float64_range_def)


lemma exact_centered_eq:
  assumes "pc \<noteq> []" and "\<forall>r \<in> set pc. length r = ncols" and "3 \<le> ncols"
  shows "exact_centered pc =
    map (\<lambda>r. map (\<lambda>j. r ! j - col_mean (map (take 3) pc) j) [0..<3]) pc"
proof -
  from assms obtain p ps where pc: "pc = p # ps" by (cases pc) auto
  with assms have "length p = ncols" by simp
  with assms(3) have hd3: "length (hd (map (take 3) pc)) = 3" by (simp add: pc)
  have row: "map2 (-) (take 3 r) (map (col_mean (map (take 3) pc)) [0..<3]) =
             map (\<lambda>j. r ! j - col_mean (map (take 3) pc) j) [0..<3]"
    if "r \<in> set pc" for r
  proof (rule nth_equalityI)
    from that assms have len: "3 \<le> length r" by auto
    then show "length (map2 (-) (take 3 r) (map (col_mean (map (take 3) pc)) [0..<3])) =
      length (map (\<lambda>j. r ! j - col_mean (map (take 3) pc) j) [0..<3])"
      by simp
    fix i
    assume "i < length (map2 (-) (take 3 r) (map (col_mean (map (take 3) pc)) [0..<3]))"
    with len have "i < 3" by simp
    with len show "map2 (-) (take 3 r) (map (col_mean (map (take 3) pc)) [0..<3]) ! i =
      map (\<lambda>j. r ! j - col_mean (map (take 3) pc) j) [0..<3] ! i"
      by simp
  qed
  show ?thesis
    unfolding exact_centered_def Let_def hd3
    by (simp add: o_def row cong: map_cong)
qed

lemma exact_centered_length:
  assumes "pc \<noteq> []" and "\<forall>r \<in> set pc. length r = ncols" and "3 \<le> ncols"
  shows "length (exact_centered pc) = length pc" and "\<forall>r \<in> set (exact_centered pc). length r = 3"
  using exact_centered_eq [OF assms] by auto

lemma exact_centered_col_sum:
  assumes "pc \<noteq> []" and "\<forall>r \<in> set pc. length r = ncols" and "3 \<le> ncols" and "j < 3"
  shows "sum_list (map (\<lambda>r. r ! j) (exact_centered pc)) = 0"
proof -
  have n: "real (length pc) \<noteq> 0" using assms(1) by simp
  have "sum_list (map (\<lambda>r. r ! j) (exact_centered pc)) =
        sum_list (map (\<lambda>r. r ! j - col_mean (map (take 3) pc) j) pc)"
    using assms(4) by (simp add: exact_centered_eq [OF assms(1-3)] o_def)
  also have "\<dots> = sum_list (map (\<lambda>r. r ! j) pc) - real (length pc) * col_mean (map (take 3) pc) j"
    by (simp add: sum_list_subtractf sum_list_triv)
  also have "col_mean (map (take 3) pc) j = sum_list (map (\<lambda>r. r ! j) pc) / real (length pc)"
    using assms(4) by (simp add: col_mean_def o_def)
  finally show ?thesis using n by simp
qed

lemma sum_squares_nonneg: "0 \<le> sum_list (map (\<lambda>v. v\<^sup>2) (r :: real list))"
  by (induction r) simp_all

lemma sum_squares_zero:
  "sum_list (map (\<lambda>v. v\<^sup>2) (r :: real list)) = 0 \<Longrightarrow> v \<in> set r \<Longrightarrow> v = 0"
proof (induction r)
  case Nil
  then show ?case by simp
next
  case (Cons a r)
  have "0 \<le> a\<^sup>2" by simp
  moreover have "0 \<le> sum_list (map (\<lambda>v. v\<^sup>2) r)" by (rule sum_squares_nonneg)
  moreover from Cons.prems(1) have "a\<^sup>2 + sum_list (map (\<lambda>v. v\<^sup>2) r) = 0" by simp
  ultimately have "a\<^sup>2 = 0" and "sum_list (map (\<lambda>v. v\<^sup>2) r) = 0" by linarith+
  with Cons.IH Cons.prems(2) show ?case by auto
qed

lemma row_norm_nonneg: "0 \<le> row_norm r"
  by (simp add: row_norm_def sum_squares_nonneg)

lemma row_norm_scale: "0 < m \<Longrightarrow> row_norm (map (\<lambda>v. v / m) r) = row_norm r / m"
proof -
  assume m: "0 < m"
  have "sum_list (map (\<lambda>v. (v / m)\<^sup>2) r) = sum_list (map (\<lambda>v. v\<^sup>2) r) / m\<^sup>2"
    by (induction r) (simp_all add: power_divide add_divide_distrib)
  then show ?thesis
    using m by (simp add: row_norm_def o_def real_sqrt_divide)
qed

lemma exact_divisor_bounds:
  assumes "pc \<noteq> []" and "\<forall>r \<in> set pc. length r = ncols" and "3 \<le> ncols"
  shows "0 \<le> exact_divisor pc" and "\<forall>c \<in> set (exact_centered pc). row_norm c \<le> exact_divisor pc"
proof -
  have ne: "exact_centered pc \<noteq> []"
    using exact_centered_length(1) [OF assms] assms(1) by auto
  let ?A = "set (map row_norm (exact_centered pc))"
  have fin: "finite ?A" and nonempty: "?A \<noteq> {}" using ne by auto
  from Max_in [OF fin nonempty] have "exact_divisor pc \<in> ?A" by (simp add: exact_divisor_def)
  then show "0 \<le> exact_divisor pc" using row_norm_nonneg by auto
  show "\<forall>c \<in> set (exact_centered pc). row_norm c \<le> exact_divisor pc"
    using fin by (auto simp: exact_divisor_def intro: Max_ge)
qed


lemma exact_postcondition:
  assumes "pc \<noteq> []" and "\<forall>r \<in> set pc. length r = ncols" and "3 \<le> ncols"
    and "exact_divisor pc \<noteq> 0"
  shows "let out = map2 (@) (map (map (\<lambda>v. v / exact_divisor pc)) (exact_centered pc))
                     (map (drop 3) pc)
         in (\<forall>r \<in> set out. row_norm (take 3 r) \<le> 1) \<and>
            Max (set (map (\<lambda>r. row_norm (take 3 r)) out)) = 1 \<and>
            (\<forall>j < 3. col_mean (map (take 3) out) j = 0)"
proof -
  define m where "m = exact_divisor pc"
  define S where "S = map (map (\<lambda>v. v / m)) (exact_centered pc)"
  define out where "out = map2 (@) S (map (drop 3) pc)"
  have len_S: "length S = length (map (drop 3) pc)"
    using exact_centered_length(1) [OF assms(1-3)] by (simp add: S_def)
  have l3_S: "\<forall>s \<in> set S. length s = 3"
    using exact_centered_length(2) [OF assms(1-3)] by (simp add: S_def)
  have take_out: "map (take 3) out = S"
    unfolding out_def by (rule take_drop_map2_append(1) [OF len_S l3_S])
  have m_pos: "0 < m"
    using exact_divisor_bounds(1) [OF assms(1-3)] assms(4) by (simp add: m_def)
  have ne: "exact_centered pc \<noteq> []"
    using exact_centered_length(1) [OF assms(1-3)] assms(1) by auto
  have norms: "map row_norm S = map (\<lambda>c. row_norm c / m) (exact_centered pc)"
    by (simp add: S_def o_def row_norm_scale [OF m_pos])
  have norms_out: "map (\<lambda>r. row_norm (take 3 r)) out = map (\<lambda>c. row_norm c / m) (exact_centered pc)"
  proof -
    have "map (\<lambda>r. row_norm (take 3 r)) out = map row_norm (map (take 3) out)"
      by (simp add: o_def)
    with take_out norms show ?thesis by simp
  qed
  have le1: "\<forall>r \<in> set out. row_norm (take 3 r) \<le> 1"
  proof
    fix r assume "r \<in> set out"
    then have "row_norm (take 3 r) \<in> set (map (\<lambda>r. row_norm (take 3 r)) out)" by simp
    then obtain c where c: "c \<in> set (exact_centered pc)" and eq: "row_norm (take 3 r) = row_norm c / m"
      unfolding norms_out by auto
    from exact_divisor_bounds(2) [OF assms(1-3)] c have "row_norm c \<le> m" by (simp add: m_def)
    with m_pos eq show "row_norm (take 3 r) \<le> 1" by simp
  qed
  have max1: "Max (set (map (\<lambda>r. row_norm (take 3 r)) out)) = 1"
  proof -
    let ?A = "set (map row_norm (exact_centered pc))"
    have mono: "mono (\<lambda>x. x / m)"
      using m_pos by (auto simp: mono_def divide_right_mono)
    have "set (map (\<lambda>r. row_norm (take 3 r)) out) = (\<lambda>x. x / m) ` ?A"
      unfolding norms_out by auto
    also have "Max \<dots> = Max ?A / m"
      using ne by (intro mono_Max_commute [OF mono, symmetric]) auto
    also have "\<dots> = 1" using m_pos by (simp add: m_def exact_divisor_def)
    finally show ?thesis .
  qed
  have mean0: "\<forall>j < 3. col_mean (map (take 3) out) j = 0"
  proof (intro allI impI)
    fix j :: nat assume j: "j < 3"
    have l3: "\<forall>c \<in> set (exact_centered pc). length c = 3"
      by (rule exact_centered_length(2) [OF assms(1-3)])
    have "sum_list (map (\<lambda>r. r ! j) S) = sum_list (map (\<lambda>c. c ! j / m) (exact_centered pc))"
      unfolding S_def map_map o_def
      by (rule arg_cong [where f = sum_list], rule list.map_cong0) (use l3 j in auto)
    also have "\<dots> = sum_list (map (\<lambda>c. c ! j) (exact_centered pc)) / m"
      by (simp add: divide_inverse sum_list_mult_const)
    also have "\<dots> = 0"
      by (simp add: exact_centered_col_sum [OF assms(1-3) j])
    finally show "col_mean (map (take 3) out) j = 0"
      by (simp add: col_mean_def take_out)
  qed
  from le1 max1 mean0 show ?thesis
    unfolding Let_def out_def S_def m_def by blast
qed


lemma foldl_fadd_Finite:
  "foldl (fadd Finite) (Finite a) (map Finite xs) = Finite (a + sum_list xs)"
  by (induction xs arbitrary: a) (simp_all add: add.assoc)

lemma np_sum_Finite: "np_sum Finite (map Finite xs) = Finite (sum_list xs)"
  by (cases xs) (simp_all add: foldl_fadd_Finite)

lemma foldl_fmax_Finite:
  "foldl fmax (Finite a) (map Finite xs) = Finite (Max (set (a # xs)))"
proof (induction xs arbitrary: a)
  case Nil
  then show ?case by simp
next
  case (Cons x xs)
  have "Max (set (max a x # xs)) = Max (set (a # x # xs))"
    by (cases "xs = []") (simp_all add: max.assoc)
  with Cons show ?case by simp
qed

lemma np_max_Finite:
  "xs \<noteq> [] \<Longrightarrow> np_max (map Finite xs) = Inr (Finite (Max (set xs)))"
  by (cases xs) (simp_all add: foldl_fmax_Finite)

lemma np_norm_Finite: "np_norm Finite (map Finite c) = Finite (row_norm c)"
proof -
  have "map (fsquare Finite) (map Finite c) = map Finite (map (\<lambda>v. v\<^sup>2) c)"
    by (simp add: power2_eq_square)
  then have "np_sum Finite (map (fsquare Finite) (map Finite c)) =
             Finite (sum_list (map (\<lambda>v. v\<^sup>2) c))"
    by (simp only: np_sum_Finite)
  then show ?thesis
    using sum_squares_nonneg [of c] by (simp add: np_norm_def row_norm_def)
qed

lemma np_mean_col_Finite:
  assumes "X \<noteq> []" and "\<forall>r \<in> set X. j < length r"
  shows "np_mean_col Finite (map (map Finite) X) j = Finite (col_mean X j)"
proof -
  have "map (\<lambda>r. r ! j) (map (map Finite) X) = map Finite (map (\<lambda>r. r ! j) X)"
    using assms(2) by simp
  then have "np_sum Finite (map (\<lambda>r. r ! j) (map (map Finite) X)) =
             Finite (sum_list (map (\<lambda>r. r ! j) X))"
    by (simp only: np_sum_Finite)
  then show ?thesis
    using assms(1) by (simp add: np_mean_col_def col_mean_def)
qed

lemma map2_fsub_Finite:
  "map2 (fsub Finite) (map Finite r) (map Finite c) = map Finite (map2 (-) r c)"
  by (induction r c rule: list_induct2') (simp_all add: fsub_def)

lemma map2_fsub_Finite_cols:
  "map2 (fsub Finite) (map Finite r) (map (\<lambda>j. Finite (f j)) js) =
   map (\<lambda>(x, y). Finite (x - y)) (zip r (map f js))"
  using map2_fsub_Finite [of r "map f js"] by (simp add: o_def case_prod_beta)

lemma centered_Finite:
  assumes "pc \<noteq> []" and "\<forall>r \<in> set pc. length r = ncols" and "3 \<le> ncols"
  shows "centered Finite pc = map (map Finite) (exact_centered pc)"
proof -
  let ?X = "map (take 3) pc"
  have xyz: "map (\<lambda>r. map Finite (take 3 r)) pc = map (map Finite) ?X" by simp
  from assms obtain p ps where pc: "pc = p # ps" by (cases pc) auto
  with assms have "length p = ncols" by simp
  with assms(3) have hd3: "length (hd (map (map Finite) ?X)) = 3" "length (hd ?X) = 3"
    by (simp_all add: pc)
  have X: "?X \<noteq> []" using assms(1) by simp
  have cols: "\<forall>r \<in> set ?X. j < length r" if "j < 3" for j
    using assms(2,3) that by auto
  have centroid: "map (np_mean_col Finite (map (map Finite) ?X)) [0..<3] =
                  map Finite (map (col_mean ?X) [0..<3])"
    using np_mean_col_Finite [OF X cols] by simp
  show ?thesis
    unfolding centered_def exact_centered_def Let_def xyz hd3 centroid
    by (auto simp: o_def map2_fsub_Finite_cols)
qed

lemma norm_divisor_Finite:
  assumes "pc \<noteq> []" and "\<forall>r \<in> set pc. length r = ncols" and "3 \<le> ncols"
  shows "norm_divisor Finite pc = Inr (Finite (exact_divisor pc))"
proof -
  have ne: "map row_norm (exact_centered pc) \<noteq> []"
    using exact_centered_length(1) [OF assms] assms(1) by auto
  have "map (np_norm Finite) (centered Finite pc) = map Finite (map row_norm (exact_centered pc))"
    by (simp add: centered_Finite [OF assms] np_norm_Finite o_def)
  then show ?thesis
    unfolding norm_divisor_def exact_divisor_def by (simp only: np_max_Finite [OF ne])
qed

lemma map2_append_map:
  "map2 (@) (map (map g) xs) (map (map g) ys) = map (map g) (map2 (@) xs ys)"
  by (induction xs ys rule: list_induct2') simp_all

lemma pc_norm_Finite:
  assumes "pc \<noteq> []" and "\<forall>r \<in> set pc. length r = ncols" and "3 \<le> ncols"
    and "exact_divisor pc \<noteq> 0"
  shows "pc_norm Finite pc =
    Inr (map (map Finite)
          (map2 (@) (map (map (\<lambda>v. v / exact_divisor pc)) (exact_centered pc))
             (map (drop 3) pc)))"
proof -
  have "map (map (\<lambda>v. fdiv Finite v (Finite (exact_divisor pc)))) (map (map Finite) (exact_centered pc)) =
        map (map Finite) (map (map (\<lambda>v. v / exact_divisor pc)) (exact_centered pc))"
    using assms(4) by (simp add: o_def)
  then have "pc_norm Finite pc =
    Inr (map2 (@) (map (map Finite) (map (map (\<lambda>v. v / exact_divisor pc)) (exact_centered pc)))
           (map (map Finite) (map (drop 3) pc)))"
    by (simp add: pc_norm_def Let_def norm_divisor_Finite [OF assms(1-3)]
        centered_Finite [OF assms(1-3)] del: map_map)
  then show ?thesis by (simp only: map2_append_map)
qed

text \<open>
  Claim C7, as amended. For a point set of at least one row and at least three channels
  and for every rounding, the normalisation returns as many rows and columns as it was
  given, with the attribute channels of the input in their order. When no operation rounds
  and the divisor \<open>m\<close> is not zero, every spatial part of the result has a norm of at most 1,
  the largest of these norms is 1, and each of the three spatial columns has the mean zero.
\<close>

theorem pc_norm_postcondition:
  assumes "pc \<noteq> []" and "\<forall>r \<in> set pc. length r = ncols" and "3 \<le> ncols"
  shows "(\<exists>out. pc_norm rnd pc = Inr out \<and> length out = length pc \<and>
            (\<forall>r \<in> set out. length r = ncols) \<and>
            map (drop 3) out = map (map Finite) (map (drop 3) pc)) \<and>
         (norm_divisor Finite pc \<noteq> Inr (Finite 0) \<longrightarrow>
            (\<exists>out. pc_norm Finite pc = Inr (map (map Finite) out) \<and>
               (\<forall>r \<in> set out. row_norm (take 3 r) \<le> 1) \<and>
               Max (set (map (\<lambda>r. row_norm (take 3 r)) out)) = 1 \<and>
               (\<forall>j < 3. col_mean (map (take 3) out) j = 0)))"
proof
  from norm_divisor_nonempty [OF assms(1), of rnd] obtain m where
    m: "norm_divisor rnd pc = Inr m" ..
  from pc_norm_shape [OF assms(2,3) m]
  show "\<exists>out. pc_norm rnd pc = Inr out \<and> length out = length pc \<and>
            (\<forall>r \<in> set out. length r = ncols) \<and>
            map (drop 3) out = map (map Finite) (map (drop 3) pc)"
    by blast
next
  show "norm_divisor Finite pc \<noteq> Inr (Finite 0) \<longrightarrow>
            (\<exists>out. pc_norm Finite pc = Inr (map (map Finite) out) \<and>
               (\<forall>r \<in> set out. row_norm (take 3 r) \<le> 1) \<and>
               Max (set (map (\<lambda>r. row_norm (take 3 r)) out)) = 1 \<and>
               (\<forall>j < 3. col_mean (map (take 3) out) j = 0))"
  proof
    assume "norm_divisor Finite pc \<noteq> Inr (Finite 0)"
    then have nz: "exact_divisor pc \<noteq> 0"
      by (simp add: norm_divisor_Finite [OF assms])
    from pc_norm_Finite [OF assms nz] exact_postcondition [OF assms nz]
    show "\<exists>out. pc_norm Finite pc = Inr (map (map Finite) out) \<and>
               (\<forall>r \<in> set out. row_norm (take 3 r) \<le> 1) \<and>
               Max (set (map (\<lambda>r. row_norm (take 3 r)) out)) = 1 \<and>
               (\<forall>j < 3. col_mean (map (take 3) out) j = 0)"
      unfolding Let_def by blast
  qed
qed

text \<open>
  Claim C2 as stated fails at a point set of a single point: the divisor is zero, no error is
  raised, and the three spatial coordinates of the result are NaN.
\<close>

theorem pc_norm_zero_divisor_counterexample:
  "norm_divisor float64_range [[1, 2, 3, 4, 5]] = Inr (Finite 0) \<and>
   pc_norm float64_range [[1, 2, 3, 4, 5]] = Inr [[NaN, NaN, NaN, Finite 4, Finite 5]] \<and>
   \<not> is_finite NaN"
  by (simp add: single_point_norm)

text \<open>
  Claim C2, as amended, at two points whose squared distances to their centroid underflow:
  the divisor is zero and the first coordinates of the result are the two infinities.
\<close>

theorem pc_norm_zero_divisor_witness:
  "list_all (\<lambda>r. length r = 5) close_together \<and> (3 :: nat) \<le> 5 \<and>
   norm_divisor float64_range close_together = Inr (Finite 0) \<and>
   pc_norm float64_range close_together =
     Inr [[PosInf, NaN, NaN, Finite 7, Finite 8], [NegInf, NaN, NaN, Finite 9, Finite 10]] \<and>
   (\<exists>out. pc_norm float64_range close_together = Inr out \<and>
      length out = length close_together \<and>
      list_all (\<lambda>r. length r = 5 \<and> list_all (\<lambda>v. \<not> is_finite v) (take 3 r)) out \<and>
      map (drop 3) out = map (map Finite) (map (drop 3) close_together))"
proof -
  have a: "\<forall>r \<in> set close_together. length r = 5" by (simp add: close_together_def)
  have b: "(3 :: nat) \<le> 5" by simp
  from pc_norm_zero_divisor [OF a b close_together_norm(1)] a close_together_norm
  show ?thesis by (simp add: list_all_iff)
qed

text \<open>
  Claim C7 as stated fails at two points at distance \<open>2 ^ 601\<close>: the squares overflow, the
  divisor is infinite, hence not zero, and every spatial coordinate of the result is zero, so
  that the largest norm is 0 and not 1.
\<close>

theorem pc_norm_postcondition_counterexample:
  "far_apart \<noteq> [] \<and> list_all (\<lambda>r. length r = 5) far_apart \<and>
   norm_divisor float64_range far_apart = Inr PosInf \<and>
   pc_norm float64_range far_apart =
     Inr (map (map Finite) [[0, 0, 0, 7, 8], [0, 0, 0, 9, 10]]) \<and>
   Max (set (map (\<lambda>r. row_norm (take 3 r)) [[0, 0, 0, 7, 8], [0, 0, 0, 9, 10]])) = 0"
  by (simp add: far_apart_norm) (simp add: far_apart_def row_norm_def)

lemma two_points_norm:
  "norm_divisor Finite [[0, 0, 0, 7, 8], [2, 0, 0, 9, 10]] = Inr (Finite 1)"
  "pc_norm Finite [[0, 0, 0, 7, 8], [2, 0, 0, 9, 10]] =
     Inr (map (map Finite) [[- 1, 0, 0, 7, 8], [1, 0, 0, 9, 10]])"
  by (simp_all add: pc_norm_def norm_divisor_def centered_def np_mean_col_def np_norm_def
      fsub_def Let_def upt_3)

text \<open>Claim C7, as amended, at two points at distance 2, with two attribute channels.\<close>

theorem pc_norm_postcondition_witness:
  "[[0, 0, 0, 7, 8], [2, 0, 0, 9, 10 :: real]] \<noteq> [] \<and>
   list_all (\<lambda>r. length r = 5) [[0, 0, 0, 7, 8], [2, 0, 0, 9, 10 :: real]] \<and>
   (3 :: nat) \<le> 5 \<and>
   norm_divisor Finite [[0, 0, 0, 7, 8], [2, 0, 0, 9, 10]] \<noteq> Inr (Finite 0) \<and>
   pc_norm Finite [[0, 0, 0, 7, 8], [2, 0, 0, 9, 10]] =
     Inr (map (map Finite) [[- 1, 0, 0, 7, 8], [1, 0, 0, 9, 10]]) \<and>
   (\<exists>out. pc_norm Finite [[0, 0, 0, 7, 8], [2, 0, 0, 9, 10]] = Inr (map (map Finite) out) \<and>
      list_all (\<lambda>r. row_norm (take 3 r) \<le> 1) out \<and>
      Max (set (map (\<lambda>r. row_norm (take 3 r)) out)) = 1 \<and>
      list_all (\<lambda>j. col_mean (map (take 3) out) j = 0) [0, 1, 2])"
proof -
  have a: "[[0, 0, 0, 7, 8], [2, 0, 0, 9, 10 :: real]] \<noteq> []" by simp
  have b: "\<forall>r \<in> set [[0, 0, 0, 7, 8], [2, 0, 0, 9, 10 :: real]]. length r = 5" by simp
  have c: "(3 :: nat) \<le> 5" by simp
  have d: "norm_divisor Finite [[0, 0, 0, 7, 8], [2, 0, 0, 9, 10]] \<noteq> Inr (Finite 0)"
    by (simp add: two_points_norm)
  from pc_norm_postcondition [OF a b c, of Finite] d obtain out where
    "pc_norm Finite [[0, 0, 0, 7, 8], [2, 0, 0, 9, 10]] = Inr (map (map Finite) out)"
    "\<forall>r \<in> set out. row_norm (take 3 r) \<le> 1"
    "Max (set (map (\<lambda>r. row_norm (take 3 r)) out)) = 1"
    "\<forall>j < 3. col_mean (map (take 3) out) j = 0"
    by blast
  then have "\<exists>out. pc_norm Finite [[0, 0, 0, 7, 8], [2, 0, 0, 9, 10]] = Inr (map (map Finite) out) \<and>
      list_all (\<lambda>r. row_norm (take 3 r) \<le> 1) out \<and>
      Max (set (map (\<lambda>r. row_norm (take 3 r)) out)) = 1 \<and>
      list_all (\<lambda>j. col_mean (map (take 3) out) j = 0) [0, 1, 2]"
    by (auto simp: list_all_iff)
  with d two_points_norm(2) show ?thesis by simp
qed


section \<open>Resampling and farthest-point sampling\<close>

lemma argmax_from_max:
  assumes "rest = drop i ys" and "best_i < i" and "i \<le> length ys"
    and "best = ys ! best_i" and "\<forall>k < i. ys ! k \<le> best"
  shows "argmax_from rest i best_i best < length ys \<and>
         (\<forall>k < length ys. ys ! k \<le> ys ! argmax_from rest i best_i best)"
  using assms
proof (induction rest arbitrary: i best_i best)
  case Nil
  then have "i = length ys" by simp
  with Nil show ?case by simp
next
  case (Cons x xs)
  from Cons.prems(1) have i: "i < length ys"
    by (metis drop_all list.distinct(1) not_le)
  with Cons.prems(1) have x: "x = ys ! i" and xs: "xs = drop (Suc i) ys"
    by (simp_all add: Cons_nth_drop_Suc [symmetric])
  show ?case
  proof (cases "best < x")
    case True
    have "\<forall>k < Suc i. ys ! k \<le> x"
      using Cons.prems(5) True x by (auto simp: less_Suc_eq)
    from Cons.IH [OF xs _ _ x this] i True show ?thesis by simp
  next
    case False
    have "\<forall>k < Suc i. ys ! k \<le> best"
      using Cons.prems(5) False x by (auto simp: less_Suc_eq)
    from Cons.IH [OF xs _ _ Cons.prems(4) this] Cons.prems(2) i False show ?thesis by simp
  qed
qed

lemma argmax_max:
  assumes "ys \<noteq> []"
  shows "argmax ys < length ys" and "\<forall>k < length ys. ys ! k \<le> ys ! argmax ys"
proof -
  from assms obtain y rest where ys: "ys = y # rest" by (cases ys) auto
  have "argmax_from rest 1 0 y < length ys \<and>
        (\<forall>k < length ys. ys ! k \<le> ys ! argmax_from rest 1 0 y)"
    by (rule argmax_from_max) (simp_all add: ys)
  then show "argmax ys < length ys" and "\<forall>k < length ys. ys ! k \<le> ys ! argmax ys"
    by (simp_all add: argmax_def ys)
qed


lemma fps_loop_first_two:
  "fps_loop (Suc (Suc n)) xyz distance start =
     start #
     argmax (map2 (\<lambda>d old. if d < old then d else old)
               (map (\<lambda>p. sq_dist p (xyz ! start)) xyz) distance) #
     tl (tl (fps_loop (Suc (Suc n)) xyz distance start))"
  by (simp add: Let_def)

lemma fps_cloud_length: "length fps_cloud = 8193"
  by (simp add: fps_cloud_def)

lemma fps_cloud_nth:
  "i < 8192 \<Longrightarrow> fps_cloud ! i = origin_row" "fps_cloud ! 8192 = far_row"
  by (simp_all add: fps_cloud_def nth_append)

lemma map_nth_prefix: "map (\<lambda>i. (xs @ ys) ! i) [0..<length xs] = xs"
proof -
  have "map (\<lambda>i. (xs @ ys) ! i) [0..<length xs] = map (\<lambda>i. xs ! i) [0..<length xs]"
    by (rule list.map_cong0) (simp add: nth_append)
  then show ?thesis by (simp add: map_nth)
qed

lemma resample_fps_cloud:
  "resample 8192 fps_cloud [0..<8192] = Inr (replicate 8192 origin_row)"
proof -
  have "map (\<lambda>i. fps_cloud ! i) [0..<8192] = replicate 8192 origin_row"
    using map_nth_prefix [of "replicate 8192 origin_row" "[far_row]"]
    by (simp add: fps_cloud_def)
  then show ?thesis
    by (simp add: resample_def random_choice_def take_rows_def fps_cloud_length)
qed

lemma fps_never_all_origin:
  "farthest_point_sample fps_cloud 8192 start \<noteq> Inr (replicate 8192 origin_row)"
proof
  assume eq: "farthest_point_sample fps_cloud 8192 start = Inr (replicate 8192 origin_row)"
  define xyz where "xyz = map (take 3) fps_cloud"
  define d0 :: "real list" where "d0 = replicate 8193 10000000000"
  define d1 where "d1 = map2 (\<lambda>d old. if d < old then d else old)
               (map (\<lambda>p. sq_dist p (xyz ! start)) xyz) d0"
  define sel where "sel = fps_loop 8192 xyz d0 start"
  from eq have start: "start < 8193"
    by (auto simp: farthest_point_sample_def Let_def fps_cloud_length split: if_splits)
  with eq have rows: "map (\<lambda>i. fps_cloud ! i) sel = replicate 8192 origin_row"
    by (simp add: farthest_point_sample_def Let_def fps_cloud_length sel_def xyz_def d0_def)
  have "(8192 :: nat) = Suc (Suc 8190)" by simp
  then have sel: "sel = start # argmax d1 # tl (tl sel)"
    unfolding sel_def d1_def using fps_loop_first_two [of 8190 xyz d0 start] by simp
  from rows have nth: "\<And>k. k < length sel \<Longrightarrow> fps_cloud ! (sel ! k) = origin_row"
  proof -
    fix k assume k: "k < length sel"
    from rows have "length sel = 8192" by (metis length_map length_replicate)
    with k have "map (\<lambda>i. fps_cloud ! i) sel ! k = origin_row"
      by (simp add: rows)
    with k show "fps_cloud ! (sel ! k) = origin_row" by simp
  qed
  from sel obtain rest where sel': "sel = start # argmax d1 # rest" by blast
  have s0: "fps_cloud ! start = origin_row"
    using nth [of 0] by (simp add: sel')
  have s1: "fps_cloud ! argmax d1 = origin_row"
    using nth [of 1] by (simp add: sel')
  have neq: "far_row \<noteq> origin_row" by (simp add: far_row_def origin_row_def)
  from s0 neq have "start \<noteq> 8192" by (auto simp: fps_cloud_nth)
  with start have "start < 8192" by simp
  then have xs: "xyz ! start = [0, 0, 0]"
    by (simp add: xyz_def fps_cloud_length fps_cloud_nth origin_row_def)
  have d1_len: "length d1 = 8193"
    by (simp add: d1_def xyz_def d0_def fps_cloud_length)
  have d1_nth: "d1 ! k = (if sq_dist (take 3 (fps_cloud ! k)) [0, 0, 0] < 10000000000
      then sq_dist (take 3 (fps_cloud ! k)) [0, 0, 0] else 10000000000)" if "k < 8193" for k
    using that by (simp add: d1_def xyz_def d0_def fps_cloud_length xs [unfolded xyz_def])
  have far: "d1 ! 8192 = 1"
    by (simp add: d1_nth fps_cloud_nth far_row_def sq_dist_def)
  have near: "d1 ! k = 0" if "k < 8192" for k
    using that by (simp add: d1_nth fps_cloud_nth origin_row_def sq_dist_def)
  have "d1 \<noteq> []" using d1_len by auto
  from argmax_max [OF this] d1_len have a: "argmax d1 < 8193" and
    b: "d1 ! 8192 \<le> d1 ! argmax d1" by simp_all
  have "argmax d1 = 8192"
  proof (rule ccontr)
    assume "argmax d1 \<noteq> 8192"
    with a have "argmax d1 < 8192" by simp
    from near [OF this] b far show False by simp
  qed
  with s1 neq show False by (simp add: fps_cloud_nth)
qed

text \<open>
  Claim C1 as stated fails. On the point set of 8192 copies of the origin and one far
  point, with the target 8192 of the source, the draw of the indices 0 to 8191 is one that
  \<open>np.random.choice\<close> may produce; the resampling then returns 8192 copies of the origin.
  No run of \<open>farthest_point_sample\<close>, from whatever initial point, returns that: its first
  or its second selected row is the far point.
\<close>

theorem resample_not_farthest_point_counterexample:
  "8192 < length fps_cloud \<and>
   choice_ok (length fps_cloud) 8192 False [0..<8192] \<and>
   resample 8192 fps_cloud [0..<8192] = Inr (replicate 8192 origin_row) \<and>
   (\<nexists>start. farthest_point_sample fps_cloud 8192 start = resample 8192 fps_cloud [0..<8192])"
  by (simp add: fps_cloud_length choice_ok_def resample_fps_cloud fps_never_all_origin)


lemma mset_rows_at_distinct:
  assumes "distinct idx" and "\<forall>i \<in> set idx. i < length xs"
  shows "mset (map (\<lambda>i. xs ! i) idx) \<subseteq># mset xs"
proof -
  have "mset idx = mset_set (set idx)"
    using assms(1) by (simp add: mset_set_set)
  also have "\<dots> \<subseteq># mset_set {0..<length xs}"
    using assms(2) by (intro subset_imp_msubset_mset_set) auto
  also have "\<dots> = mset [0..<length xs]"
    by simp
  finally have "image_mset (\<lambda>i. xs ! i) (mset idx) \<subseteq># image_mset (\<lambda>i. xs ! i) (mset [0..<length xs])"
    by (rule image_mset_subseteq_mono)
  moreover have "image_mset (\<lambda>i. xs ! i) (mset [0..<length xs]) = mset xs"
    by (metis map_nth mset_map)
  ultimately show ?thesis by simp
qed

text \<open>
  Claim C1, as amended. When the point set has more rows than the target \<open>K\<close>, the
  resampling returns the rows at the \<open>K\<close> indices that \<open>np.random.choice\<close> draws without
  replacement, in the order drawn: \<open>K\<close> distinct positions of the input, so the result is
  a sub-multiset of the input rows. The spatial coordinates play no part in the choice.
\<close>

theorem resample_down_is_random_choice:
  assumes "K < length point_cloud"
    and "choice_ok (length point_cloud) K False drawn"
  shows "resample K point_cloud drawn = Inr (map (\<lambda>i. point_cloud ! i) drawn) \<and>
         length drawn = K \<and> distinct drawn \<and> (\<forall>i \<in> set drawn. i < length point_cloud) \<and>
         mset (map (\<lambda>i. point_cloud ! i) drawn) \<subseteq># mset point_cloud"
proof -
  from assms(2) have k: "length drawn = K" and d: "distinct drawn"
    and r: "\<forall>i \<in> set drawn. i < length point_cloud"
    by (simp_all add: choice_ok_def)
  from assms(1) have "point_cloud \<noteq> []" by auto
  with assms(1) r have
    "resample K point_cloud drawn = Inr (map (\<lambda>i. point_cloud ! i) drawn)"
    by (simp add: resample_def random_choice_def take_rows_def)
  with k d r mset_rows_at_distinct [OF d r] show ?thesis by blast
qed

text \<open>Claim C1, as amended, at three rows resampled to two.\<close>

theorem resample_down_is_random_choice_witness:
  "(2 :: nat) < length [[0, 0, 0 :: real], [1, 0, 0], [9, 0, 0]] \<and>
   choice_ok (length [[0, 0, 0 :: real], [1, 0, 0], [9, 0, 0]]) 2 False [1, 0] \<and>
   resample 2 [[0, 0, 0], [1, 0, 0], [9, 0, 0]] [1, 0] = Inr [[1, 0, 0], [0, 0, 0]] \<and>
   mset [[1, 0, 0], [0, 0, 0 :: real]] \<subseteq># mset [[0, 0, 0], [1, 0, 0], [9, 0, 0]]"
proof -
  have a: "(2 :: nat) < length [[0, 0, 0 :: real], [1, 0, 0], [9, 0, 0]]" by simp
  have b: "choice_ok (length [[0, 0, 0 :: real], [1, 0, 0], [9, 0, 0]]) 2 False [1, 0]"
    by (simp add: choice_ok_def)
  from resample_down_is_random_choice [OF a b] a b show ?thesis by simp
qed

end
